theory Spec2Isabelle
  imports Main "HOL-Library.Word"
begin

unbundle bit_operations_syntax

section \<open>The gateway of \<open>service/gate.go\<close>\<close>

text \<open>
  A shallow embedding of \<open>service/gate.go\<close>: the structs are records, pointers into
  the standard library (connections, buffered readers and writers) are handles into an
  explicit store, a panic is a value, and the goroutines are threads whose steps are
  interleaved by a scheduler label.
\<close>

subsection \<open>Values\<close>

type_synonym byte = "8 word"
type_synonym uint16 = "16 word"
type_synonym uint32 = "32 word"

text \<open>
  Go's \<open>error\<close> values that reach this file. \<open>NetError t\<close> is any value that implements
  \<open>net.Error\<close> and whose \<open>Temporary()\<close> is \<open>t\<close>; the other three are the plain errors of
  \<open>io\<close>, which do not implement \<open>net.Error\<close>.
\<close>

datatype error = EOF | ErrUnexpectedEOF | ErrShortWrite | NetError bool

fun is_net_Error :: "error \<Rightarrow> bool" where
  "is_net_Error (NetError t) = True"
| "is_net_Error e = False"

fun Temporary :: "error \<Rightarrow> bool" where
  "Temporary (NetError t) = t"
| "Temporary e = False"

text \<open>What a read or a write on a connection closed on this side returns.\<close>

definition errClosed :: error where
  "errClosed = NetError False"

datatype panic =
    NilDereference
  | IndexOutOfRange
  | TypeAssertion
  | CloseOfClosedChannel
  | GateOpenError

text \<open>
  A call returns, panics, or blocks (a read with no data to deliver yet).
\<close>

datatype 'a outcome = Return 'a | Panic panic | Block

record ClientMsg =
  session :: uint32
  data :: "byte list"

record Conf =
  address :: string
  conf_maxclient :: uint32

record ReadWriter =
  Reader :: nat
  Writer :: nat

record Session =
  sessionid :: uint32
  conn :: nat
  brw :: ReadWriter

type_synonym Address = nat

record Gate =
  source :: Address
  clinetnum :: uint32
  maxclient :: uint32
  quit :: bool
  sessions :: "uint32 \<rightharpoonup> Session"

definition NewConf :: "string \<Rightarrow> uint32 \<Rightarrow> Conf" where
  "NewConf a m = \<lparr>address = a, conf_maxclient = m\<rparr>"

definition NewClientMsg :: "uint32 \<Rightarrow> byte list \<Rightarrow> ClientMsg" where
  "NewClientMsg s d = \<lparr>session = s, data = d\<rparr>"

subsection \<open>The standard library, as far as the gateway uses it\<close>

text \<open>
  A connection (\<open>net.Conn\<close>): what the peer has sent and not yet been read, in order,
  with the errors the transport reports between the bytes; what has been written to it;
  how often \<open>Close\<close> was called on it; and how many more bytes the transport accepts
  before writes fail (\<open>None\<close>: no limit).
\<close>

datatype event = Byte byte | Fail error

record Conn =
  incoming :: "event list"
  sent :: "byte list"
  close_calls :: nat
  wquota :: "nat option"

text \<open>A \<open>bufio.Writer\<close>: the writer it is bound to (\<open>None\<close> is nil), its buffer, its sticky error.\<close>

record bufWriter =
  wr :: "nat option"
  wbuf :: "byte list"
  werr :: "error option"

datatype start_pc = AtSelect | AtAccept | StartReturned

text \<open>
  Where the read loop stands. \<open>InReadHead c\<close> and \<open>InReadData c\<close>: inside the read of the
  header, respectively of the payload, waiting in \<open>Read\<close> on connection \<open>c\<close>.
\<close>

datatype serve_pc =
    AtReadHead
  | InReadHead nat
  | AtReadData
  | InReadData nat
  | AtCloseSession
  | AtSessionClose
  | ServeReturned

text \<open>
  The goroutines of one Gate, and the callers of \<open>kick\<close> and \<open>Write\<close> that have left
  the critical section and still have to close, respectively write to, the session they
  found. \<open>T_start\<close> holds the local \<open>sessionId\<close> of \<open>start\<close>, \<open>T_serve\<close> the local \<open>head\<close>
  of \<open>serve\<close>.
\<close>

datatype thread =
    T_start uint32 start_pc
  | T_serve Session "byte list" serve_pc
  | T_kick Session
  | T_write Session "byte list"
  | T_done

text \<open>
  Everything outside the Gate struct: the connections, the buffered readers (the
  connection each is bound to; the buffer itself is a prefix of the connection's
  \<open>incoming\<close> and is not kept apart), the buffered writers, the two package-level pools,
  the number of buffered objects allocated so far, the messages pushed to the
  destination service, and the threads.
\<close>

record world =
  conns :: "nat \<Rightarrow> Conn"
  bufreaders :: "nat \<Rightarrow> nat option"
  bufwriters :: "nat \<Rightarrow> bufWriter"
  bufioReaderPool :: "nat list"
  bufioWriterPool :: "nat list"
  allocated :: nat
  mailbox :: "ClientMsg list"
  threads :: "thread list"

definition closed :: "Conn \<Rightarrow> bool" where
  "closed c = (0 < close_calls c)"

definition set_conn :: "nat \<Rightarrow> Conn \<Rightarrow> world \<Rightarrow> world" where
  "set_conn c k w = w\<lparr>conns := (conns w)(c := k)\<rparr>"

text \<open>\<open>conn.Close()\<close>; its error result (on a second call) is ignored by every caller.\<close>

definition conn_Close :: "nat \<Rightarrow> world \<Rightarrow> world" where
  "conn_Close c w = set_conn c ((conns w c)\<lparr>close_calls := Suc (close_calls (conns w c))\<rparr>) w"

text \<open>
  \<open>conn.Write(p)\<close>: the number of bytes written and the error. On a closed connection
  nothing is written; when the transport's quota runs out the write is short and fails.
\<close>

definition conn_Write :: "nat \<Rightarrow> byte list \<Rightarrow> world \<Rightarrow> nat \<times> error option \<times> world" where
  "conn_Write c p w =
     (let k = conns w c in
      if closed k then (0, Some errClosed, w)
      else case wquota k of
        None \<Rightarrow> (length p, None, set_conn c (k\<lparr>sent := sent k @ p\<rparr>) w)
      | Some q \<Rightarrow>
          if length p \<le> q
          then (length p, None,
                set_conn c (k\<lparr>sent := sent k @ p, wquota := Some (q - length p)\<rparr>) w)
          else (q, Some (NetError False),
                set_conn c (k\<lparr>sent := sent k @ take q p, wquota := Some 0\<rparr>) w))"

text \<open>
  Reading up to \<open>n\<close> bytes from the pending events: the bytes obtained, the error that
  stopped the read if any, and the events left. \<open>None\<close>: the events ran out first and the
  read blocks. An error is used up by the read that reports it, except the end of the
  stream: once the peer has closed, every read meets \<open>EOF\<close> again.
\<close>

fun read_events :: "nat \<Rightarrow> event list \<Rightarrow> (byte list \<times> error option \<times> event list) option" where
  "read_events 0 evs = Some ([], None, evs)"
| "read_events (Suc n) [] = None"
| "read_events (Suc n) (Byte b # evs) =
     (case read_events n evs of
        None \<Rightarrow> None
      | Some (bs, e, rest) \<Rightarrow> Some (b # bs, e, rest))"
| "read_events (Suc n) (Fail e # evs) =
     Some ([], Some e, if e = EOF then Fail e # evs else evs)"

text \<open>
  \<open>io.ReadFull\<close> through a buffered reader whose underlying reader is \<open>rd\<close> (\<open>None\<close> is
  nil): the count, the error, the buffer as it is afterwards (the bytes read overwrite
  its front) and the world. An empty buffer needs no read at all; the read on nil
  panics; a read on a connection closed on this side fails with \<open>errClosed\<close>; an \<open>EOF\<close>
  after some bytes is reported as \<open>ErrUnexpectedEOF\<close>. The buffered reader holds nothing
  back here: what a read does not hand out stays in \<open>incoming\<close>. (A \<open>bufio.Reader\<close> would
  still hand out what it had read ahead of a close. This program never reads ahead of
  one: \<open>Session.Close\<close> resets the reader before it closes the connection, and the accept
  loop closes a connection before a reader is bound to it.)
\<close>

definition io_ReadFull_from ::
  "nat option \<Rightarrow> byte list \<Rightarrow> world \<Rightarrow> (nat \<times> error option \<times> byte list \<times> world) outcome" where
  "io_ReadFull_from rd buf w =
     (if buf = [] then Return (0, None, buf, w)
      else case rd of
        None \<Rightarrow> Panic NilDereference
      | Some c \<Rightarrow>
          if closed (conns w c) then Return (0, Some errClosed, buf, w)
          else
            (case read_events (length buf) (incoming (conns w c)) of
               None \<Rightarrow> Block
             | Some (bs, e, rest) \<Rightarrow>
                 Return (length bs,
                         (if e = Some EOF \<and> bs \<noteq> [] then Some ErrUnexpectedEOF else e),
                         bs @ drop (length bs) buf,
                         set_conn c ((conns w c)\<lparr>incoming := rest\<rparr>) w)))"

text \<open>
  \<open>io.ReadFull(r, buf)\<close> on the buffered reader \<open>r\<close>: the read goes to the underlying
  reader that \<open>r\<close> has when the read begins.
\<close>

definition io_ReadFull ::
  "nat \<Rightarrow> byte list \<Rightarrow> world \<Rightarrow> (nat \<times> error option \<times> byte list \<times> world) outcome" where
  "io_ReadFull r buf w = io_ReadFull_from (bufreaders w r) buf w"

definition defaultBufSize :: nat where
  "defaultBufSize = 4096"

definition Available :: "bufWriter \<Rightarrow> nat" where
  "Available b = defaultBufSize - length (wbuf b)"

definition set_bufwriter :: "nat \<Rightarrow> bufWriter \<Rightarrow> world \<Rightarrow> world" where
  "set_bufwriter i b w = w\<lparr>bufwriters := (bufwriters w)(i := b)\<rparr>"

text \<open>\<open>(*bufio.Writer).Flush\<close>.\<close>

definition bufio_Flush :: "nat \<Rightarrow> world \<Rightarrow> (error option \<times> world) outcome" where
  "bufio_Flush i w =
     (let b = bufwriters w i in
      if werr b \<noteq> None then Return (werr b, w)
      else if wbuf b = [] then Return (None, w)
      else case wr b of
        None \<Rightarrow> Panic NilDereference
      | Some c \<Rightarrow>
          (case conn_Write c (wbuf b) w of (n, err, w1) \<Rightarrow>
             (case (if n < length (wbuf b) \<and> err = None then Some ErrShortWrite else err) of
                Some e \<Rightarrow> Return (Some e, set_bufwriter i (b\<lparr>wbuf := drop n (wbuf b), werr := Some e\<rparr>) w1)
              | None \<Rightarrow> Return (None, set_bufwriter i (b\<lparr>wbuf := []\<rparr>) w1))))"

text \<open>
  \<open>(*bufio.Writer).Write\<close>. Its loop runs while the data does not fit into the buffer
  and no error is recorded: with an empty buffer the data goes to the underlying writer
  directly, otherwise the buffer is filled up and flushed. The result of the loop is the
  count so far, the data left, and the world.
\<close>

function bufio_Write_loop ::
  "nat \<Rightarrow> byte list \<Rightarrow> nat \<Rightarrow> world \<Rightarrow> (nat \<times> byte list \<times> world) outcome" where
  "bufio_Write_loop i p nn w =
     (let b = bufwriters w i in
      if Available b < length p \<and> werr b = None then
        (if wbuf b = [] then
           (case wr b of
              None \<Rightarrow> Panic NilDereference
            | Some c \<Rightarrow>
                (case conn_Write c p w of (n, err, w1) \<Rightarrow>
                   bufio_Write_loop i (drop n p) (nn + n) (set_bufwriter i (b\<lparr>werr := err\<rparr>) w1)))
         else
           (let n = min (Available b) (length p) in
            case bufio_Flush i (set_bufwriter i (b\<lparr>wbuf := wbuf b @ take n p\<rparr>) w) of
              Return (e, w1) \<Rightarrow> bufio_Write_loop i (drop n p) (nn + n) w1
            | Panic x \<Rightarrow> Panic x
            | Block \<Rightarrow> Block))
      else Return (nn, p, w))"
  by pat_completeness auto
termination
  apply (relation "measures [\<lambda>(i, p, nn, w). if werr (bufwriters w i) = None then 1 else 0,
                            \<lambda>(i, p, nn, w). length p,
                            \<lambda>(i, p, nn, w). length (wbuf (bufwriters w i))]")
    apply simp
   apply (auto simp: conn_Write_def set_bufwriter_def set_conn_def Let_def
               split: if_splits option.splits)[1]
  apply (auto simp: bufio_Flush_def conn_Write_def set_bufwriter_def set_conn_def Let_def
                    Available_def
              split: if_splits option.splits)
  done

declare bufio_Write_loop.simps [simp del]

definition bufio_Write :: "nat \<Rightarrow> byte list \<Rightarrow> world \<Rightarrow> (nat \<times> error option \<times> world) outcome" where
  "bufio_Write i p w =
     (case bufio_Write_loop i p 0 w of
        Return (nn, rest, w1) \<Rightarrow>
          (let b = bufwriters w1 i in
           case werr b of
             Some e \<Rightarrow> Return (nn, Some e, w1)
           | None \<Rightarrow> Return (nn + length rest, None, set_bufwriter i (b\<lparr>wbuf := wbuf b @ rest\<rparr>) w1))
      | Panic x \<Rightarrow> Panic x
      | Block \<Rightarrow> Block)"

text \<open>\<open>Reset\<close> of a buffered reader and of a buffered writer (\<open>None\<close> is \<open>Reset(nil)\<close>).\<close>

definition reader_Reset :: "nat \<Rightarrow> nat option \<Rightarrow> world \<Rightarrow> world" where
  "reader_Reset i r w = w\<lparr>bufreaders := (bufreaders w)(i := r)\<rparr>"

definition writer_Reset :: "nat \<Rightarrow> nat option \<Rightarrow> world \<Rightarrow> world" where
  "writer_Reset i t w = set_bufwriter i \<lparr>wr = t, wbuf = [], werr = None\<rparr> w"

text \<open>
  \<open>sync.Pool\<close>: \<open>Put\<close> adds an object; \<open>Get\<close> takes out some object or returns nil. Which
  one is not the program's choice: the caller of the model says which position is
  handed out (\<open>None\<close>, or a position outside the pool, is nil).
\<close>

definition pool_Put :: "nat \<Rightarrow> nat list \<Rightarrow> nat list" where
  "pool_Put x pool = pool @ [x]"

definition pool_Get :: "nat option \<Rightarrow> nat list \<Rightarrow> nat option \<times> nat list" where
  "pool_Get choice pool =
     (case choice of
        None \<Rightarrow> (None, pool)
      | Some k \<Rightarrow>
          if k < length pool then (Some (pool ! k), take k pool @ drop (Suc k) pool)
          else (None, pool))"

subsection \<open>Buffer pool and Session\<close>

definition newBufioReader :: "nat \<Rightarrow> nat option \<Rightarrow> world \<Rightarrow> nat \<times> world" where
  "newBufioReader r choice w =
     (case pool_Get choice (bufioReaderPool w) of
        (Some br, pool) \<Rightarrow> (br, reader_Reset br (Some r) (w\<lparr>bufioReaderPool := pool\<rparr>))
      | (None, pool) \<Rightarrow>
          (allocated w,
           reader_Reset (allocated w) (Some r)
             (w\<lparr>bufioReaderPool := pool, allocated := Suc (allocated w)\<rparr>)))"

definition putBufioReader :: "nat \<Rightarrow> world \<Rightarrow> world" where
  "putBufioReader r w =
     (let w1 = reader_Reset r None w in w1\<lparr>bufioReaderPool := pool_Put r (bufioReaderPool w1)\<rparr>)"

definition newBufioWriter :: "nat \<Rightarrow> nat option \<Rightarrow> world \<Rightarrow> nat \<times> world" where
  "newBufioWriter t choice w =
     (case pool_Get choice (bufioWriterPool w) of
        (Some bw, pool) \<Rightarrow> (bw, writer_Reset bw (Some t) (w\<lparr>bufioWriterPool := pool\<rparr>))
      | (None, pool) \<Rightarrow>
          (allocated w,
           writer_Reset (allocated w) (Some t)
             (w\<lparr>bufioWriterPool := pool, allocated := Suc (allocated w)\<rparr>)))"

definition putBufioWriter :: "nat \<Rightarrow> world \<Rightarrow> world" where
  "putBufioWriter t w =
     (let w1 = writer_Reset t None w in w1\<lparr>bufioWriterPool := pool_Put t (bufioWriterPool w1)\<rparr>)"

definition newSession :: "uint32 \<Rightarrow> nat \<Rightarrow> nat option \<Rightarrow> nat option \<Rightarrow> world \<Rightarrow> Session \<times> world" where
  "newSession sid c rchoice wchoice w =
     (case newBufioReader c rchoice w of (br, w1) \<Rightarrow>
      case newBufioWriter c wchoice w1 of (bw, w2) \<Rightarrow>
        (\<lparr>sessionid = sid, conn = c, brw = \<lparr>Reader = br, Writer = bw\<rparr>\<rparr>, w2))"

definition Session_Close :: "Session \<Rightarrow> world \<Rightarrow> world" where
  "Session_Close s w =
     conn_Close (conn s) (putBufioWriter (Writer (brw s)) (putBufioReader (Reader (brw s)) w))"

text \<open>\<open>Session.Write\<close> has no result: what the two calls return is dropped.\<close>

definition Session_Write :: "Session \<Rightarrow> byte list \<Rightarrow> world \<Rightarrow> world outcome" where
  "Session_Write s d w =
     (case bufio_Write (Writer (brw s)) d w of
        Return (nn, err, w1) \<Rightarrow>
          (case bufio_Flush (Writer (brw s)) w1 of
             Return (err', w2) \<Rightarrow> Return w2
           | Panic x \<Rightarrow> Panic x
           | Block \<Rightarrow> Block)
      | Panic x \<Rightarrow> Panic x
      | Block \<Rightarrow> Block)"

text \<open>
  \<open>Session.ReadFull\<close>: the error of \<open>io.ReadFull\<close> is returned only when it implements
  \<open>net.Error\<close> and is not temporary; in every other case the result is nil.
  \<open>Session_ReadFull_from\<close> is the call on the underlying reader \<open>rd\<close>; \<open>Session_ReadFull\<close>
  takes the one that the session's buffered reader has when the call begins.
\<close>

definition Session_ReadFull_from ::
  "nat option \<Rightarrow> byte list \<Rightarrow> world \<Rightarrow> (error option \<times> byte list \<times> world) outcome" where
  "Session_ReadFull_from rd buf w =
     (case io_ReadFull_from rd buf w of
        Return (n, err, buf', w1) \<Rightarrow>
          (case err of
             Some e \<Rightarrow>
               if is_net_Error e \<and> \<not> Temporary e then Return (Some e, buf', w1)
               else Return (None, buf', w1)
           | None \<Rightarrow> Return (None, buf', w1))
      | Panic x \<Rightarrow> Panic x
      | Block \<Rightarrow> Block)"

definition Session_ReadFull ::
  "Session \<Rightarrow> byte list \<Rightarrow> world \<Rightarrow> (error option \<times> byte list \<times> world) outcome" where
  "Session_ReadFull s buf w = Session_ReadFull_from (bufreaders w (Reader (brw s))) buf w"

subsection \<open>Gate\<close>

definition newGate :: "Address \<Rightarrow> Gate" where
  "newGate src =
     \<lparr>source = src, clinetnum = 0, maxclient = 0, quit = False, sessions = Map.empty\<rparr>"

text \<open>The \<open>go\<close> statement.\<close>

definition spawn :: "thread \<Rightarrow> world \<Rightarrow> world" where
  "spawn t w = w\<lparr>threads := threads w @ [t]\<rparr>"

text \<open>
  \<open>Gate.open\<close>; \<open>listen_ok\<close> says whether \<open>net.Listen\<close> succeeded. The accept loop
  starts with its local \<open>sessionId\<close> at 0.
\<close>

definition Gate_open :: "Conf \<Rightarrow> bool \<Rightarrow> Gate \<Rightarrow> world \<Rightarrow> (bool \<times> Gate \<times> world) outcome" where
  "Gate_open conf listen_ok g w =
     (if \<not> listen_ok then Panic GateOpenError
      else Return (True, g\<lparr>maxclient := conf_maxclient conf\<rparr>, spawn (T_start 0 AtSelect) w))"

text \<open>\<open>Gate.close\<close> closes the channel \<open>quit\<close>; closing a closed channel panics.\<close>

definition Gate_close :: "Gate \<Rightarrow> Gate outcome" where
  "Gate_close g = (if quit g then Panic CloseOfClosedChannel else Return (g\<lparr>quit := True\<rparr>))"

text \<open>The \<open>select\<close> at the top of the loop of \<open>Gate.start\<close>.\<close>

definition start_select :: "Gate \<Rightarrow> start_pc" where
  "start_select g = (if quit g then StartReturned else AtAccept)"

text \<open>
  The \<open>default\<close> branch of that \<open>select\<close>, once \<open>listen.Accept()\<close> has returned:
  \<open>None\<close> is an error (\<open>continue\<close>), \<open>Some c\<close> the new connection. The result is the
  local \<open>sessionId\<close>, the Gate and the world afterwards.
\<close>

definition start_accept ::
  "nat option \<Rightarrow> nat option \<Rightarrow> nat option \<Rightarrow> uint32 \<Rightarrow> Gate \<Rightarrow> world \<Rightarrow> uint32 \<times> Gate \<times> world" where
  "start_accept accepted rchoice wchoice sessionId g w =
     (case accepted of
        None \<Rightarrow> (sessionId, g, w)
      | Some c \<Rightarrow>
          (let w1 = (if maxclient g \<noteq> 0 \<and> maxclient g \<le> clinetnum g then conn_Close c w else w);
               g1 = g\<lparr>clinetnum := clinetnum g + 1\<rparr>;
               sid = sessionId + 1
           in case newSession sid c rchoice wchoice w1 of (s, w2) \<Rightarrow>
                (sid, g1\<lparr>sessions := (sessions g1)(sid \<mapsto> s)\<rparr>,
                 spawn (T_serve s [0, 0] AtReadHead) w2)))"

text \<open>\<open>binary.BigEndian.Uint16\<close>.\<close>

definition BigEndian_Uint16 :: "byte list \<Rightarrow> uint16 outcome" where
  "BigEndian_Uint16 b =
     (case b of
        b0 # b1 # rest \<Rightarrow> Return (ucast b1 OR push_bit 8 (ucast b0))
      | _ \<Rightarrow> Panic IndexOutOfRange)"

text \<open>\<open>dest.Push(msg)\<close>: the message is appended to the destination's mailbox.\<close>

definition Push :: "ClientMsg \<Rightarrow> world \<Rightarrow> world" where
  "Push m w = w\<lparr>mailbox := mailbox w @ [m]\<rparr>"

text \<open>
  The critical section of \<open>closeSession\<close>, and \<open>closeSession\<close> as a whole.
\<close>

definition closeSession_locked :: "Session \<Rightarrow> Gate \<Rightarrow> Gate" where
  "closeSession_locked s g = g\<lparr>sessions := (sessions g)(sessionid s := None)\<rparr>"

definition closeSession :: "Session \<Rightarrow> Gate \<Rightarrow> world \<Rightarrow> Gate \<times> world" where
  "closeSession s g w = (closeSession_locked s g, Session_Close s w)"

text \<open>
  One pass through the loop of \<open>Gate.serve\<close>, in its two reads. Each returns the thread
  as it continues: with the next read, or with \<open>closeSession\<close> and the \<open>return\<close>. The
  \<open>_from\<close> forms are the reads on the underlying reader \<open>rd\<close>; a read that begins takes
  the one the session's buffered reader has at that moment.
\<close>

definition serve_ReadHead_from ::
  "Session \<Rightarrow> nat option \<Rightarrow> byte list \<Rightarrow> world \<Rightarrow> (thread \<times> world) outcome" where
  "serve_ReadHead_from s rd head w =
     (case Session_ReadFull_from rd head w of
        Return (err, head', w1) \<Rightarrow>
          (case err of
             Some e \<Rightarrow> Return (T_serve s head' AtCloseSession, w1)
           | None \<Rightarrow> Return (T_serve s head' AtReadData, w1))
      | Panic x \<Rightarrow> Panic x
      | Block \<Rightarrow> Block)"

definition serve_ReadHead ::
  "Session \<Rightarrow> byte list \<Rightarrow> world \<Rightarrow> (thread \<times> world) outcome" where
  "serve_ReadHead s head w = serve_ReadHead_from s (bufreaders w (Reader (brw s))) head w"

definition serve_ReadData_from ::
  "Session \<Rightarrow> nat option \<Rightarrow> byte list \<Rightarrow> world \<Rightarrow> (thread \<times> world) outcome" where
  "serve_ReadData_from s rd head w =
     (case BigEndian_Uint16 head of
        Return len \<Rightarrow>
          (case Session_ReadFull_from rd (replicate (unat len) 0) w of
             Return (err, d, w1) \<Rightarrow>
               (case err of
                  Some e \<Rightarrow> Return (T_serve s head AtCloseSession, w1)
                | None \<Rightarrow>
                    Return (T_serve s head AtReadHead, Push (NewClientMsg (sessionid s) d) w1))
           | Panic x \<Rightarrow> Panic x
           | Block \<Rightarrow> Block)
      | Panic x \<Rightarrow> Panic x
      | Block \<Rightarrow> Block)"

definition serve_ReadData ::
  "Session \<Rightarrow> byte list \<Rightarrow> world \<Rightarrow> (thread \<times> world) outcome" where
  "serve_ReadData s head w = serve_ReadData_from s (bufreaders w (Reader (brw s))) head w"

text \<open>
  A read that has nothing to deliver yet waits in \<open>Read\<close> on the connection it was
  started on; \<open>waiting\<close> is that state of the thread, if there is such a connection.
\<close>

definition waiting :: "(nat \<Rightarrow> serve_pc) \<Rightarrow> Session \<Rightarrow> byte list \<Rightarrow> Gate \<Rightarrow> world \<Rightarrow>
    (thread \<times> Gate \<times> world) outcome" where
  "waiting pc s head g w =
     (case bufreaders w (Reader (brw s)) of
        Some c \<Rightarrow> Return (T_serve s head (pc c), g, w)
      | None \<Rightarrow> Block)"

text \<open>
  The critical section of \<open>kick\<close> (the session found, if any, and the Gate), and \<open>kick\<close>
  as a whole.
\<close>

definition kick_locked :: "uint32 \<Rightarrow> Gate \<Rightarrow> Session option \<times> Gate" where
  "kick_locked sid g =
     (case sessions g sid of
        Some s \<Rightarrow> (Some s, g\<lparr>sessions := (sessions g)(sid := None)\<rparr>)
      | None \<Rightarrow> (None, g))"

definition kick :: "uint32 \<Rightarrow> Gate \<Rightarrow> world \<Rightarrow> Gate \<times> world" where
  "kick sid g w =
     (case kick_locked sid g of
        (Some s, g1) \<Rightarrow> (g1, Session_Close s w)
      | (None, g1) \<Rightarrow> (g1, w))"

text \<open>
  \<open>Gate.Write\<close>. The receiver and the message are pointers (\<open>None\<close> is nil): the
  receiver is dereferenced for its lock, the message for its session id.
\<close>

definition Gate_Write :: "Gate option \<Rightarrow> ClientMsg option \<Rightarrow> world \<Rightarrow> world outcome" where
  "Gate_Write gp mp w =
     (case gp of
        None \<Rightarrow> Panic NilDereference
      | Some g \<Rightarrow>
          (case mp of
             None \<Rightarrow> Panic NilDereference
           | Some m \<Rightarrow>
               (case sessions g (session m) of
                  Some s \<Rightarrow> Session_Write s (data m) w
                | None \<Rightarrow> Return w)))"

subsection \<open>Dispatch bridge\<close>

text \<open>
  A variadic argument: a \<open>*ClientMsg\<close> (possibly nil) or a value of another type. The
  registry \<open>GATES\<close> is a map from addresses.
\<close>

datatype arg = ArgClientMsg "ClientMsg option" | ArgOther

definition GateResponseDispatch ::
  "(Address \<rightharpoonup> Gate) \<Rightarrow> Address \<Rightarrow> arg list \<Rightarrow> world \<Rightarrow> world outcome" where
  "GateResponseDispatch GATES src args w =
     (case args of
        [] \<Rightarrow> Panic IndexOutOfRange
      | a # rest \<Rightarrow>
          (case a of
             ArgOther \<Rightarrow> Panic TypeAssertion
           | ArgClientMsg mp \<Rightarrow> Gate_Write (GATES src) mp w))"

definition GateDispatch :: "(Address \<rightharpoonup> Gate) \<Rightarrow> Address \<Rightarrow> (Address \<rightharpoonup> Gate)" where
  "GateDispatch GATES src =
     (case GATES src of
        Some g \<Rightarrow> GATES
      | None \<Rightarrow> GATES(src \<mapsto> newGate src))"

subsection \<open>Interleaving\<close>

text \<open>
  What one thread does up to its next point of interleaving. The sections between
  \<open>Lock\<close> and \<open>Unlock\<close> are single steps. A read that can deliver is one step too; one
  that cannot enters \<open>Read\<close> on its connection and waits there, and goes on (with that
  connection, whatever has happened to the buffered reader since) once the peer has
  sent or the connection has been closed. The accept loop waiting in \<open>Accept\<close> is moved
  by \<open>L_accept\<close> below.
\<close>

fun thread_step :: "thread \<Rightarrow> Gate \<Rightarrow> world \<Rightarrow> (thread \<times> Gate \<times> world) outcome" where
  "thread_step (T_start sessionId AtSelect) g w = Return (T_start sessionId (start_select g), g, w)"
| "thread_step (T_start sessionId pc) g w = Block"
| "thread_step (T_serve s head AtReadHead) g w =
     (case serve_ReadHead s head w of
        Return (t, w1) \<Rightarrow> Return (t, g, w1)
      | Panic x \<Rightarrow> Panic x
      | Block \<Rightarrow> waiting InReadHead s head g w)"
| "thread_step (T_serve s head (InReadHead c)) g w =
     (case serve_ReadHead_from s (Some c) head w of
        Return (t, w1) \<Rightarrow> Return (t, g, w1) | Panic x \<Rightarrow> Panic x | Block \<Rightarrow> Block)"
| "thread_step (T_serve s head AtReadData) g w =
     (case serve_ReadData s head w of
        Return (t, w1) \<Rightarrow> Return (t, g, w1)
      | Panic x \<Rightarrow> Panic x
      | Block \<Rightarrow> waiting InReadData s head g w)"
| "thread_step (T_serve s head (InReadData c)) g w =
     (case serve_ReadData_from s (Some c) head w of
        Return (t, w1) \<Rightarrow> Return (t, g, w1) | Panic x \<Rightarrow> Panic x | Block \<Rightarrow> Block)"
| "thread_step (T_serve s head AtCloseSession) g w =
     Return (T_serve s head AtSessionClose, closeSession_locked s g, w)"
| "thread_step (T_serve s head AtSessionClose) g w =
     Return (T_serve s head ServeReturned, g, Session_Close s w)"
| "thread_step (T_serve s head ServeReturned) g w = Block"
| "thread_step (T_kick s) g w = Return (T_done, g, Session_Close s w)"
| "thread_step (T_write s d) g w =
     (case Session_Write s d w of
        Return w1 \<Rightarrow> Return (T_done, g, w1) | Panic x \<Rightarrow> Panic x | Block \<Rightarrow> Block)"
| "thread_step T_done g w = Block"

definition set_thread :: "nat \<Rightarrow> thread \<Rightarrow> world \<Rightarrow> world" where
  "set_thread i t w = w\<lparr>threads := (threads w)[i := t]\<rparr>"

text \<open>
  What can happen next to a Gate: a call of \<open>open\<close>, \<open>close\<close>, \<open>kick\<close> or \<open>Write\<close> (the
  latter two up to the end of their critical section; the rest is left as a thread),
  \<open>Accept\<close> returning in the accept loop, a thread moving on, or the peer of a connection
  sending.
\<close>

datatype label =
    L_open Conf bool
  | L_close
  | L_kick uint32
  | L_write ClientMsg
  | L_accept nat "nat option" "nat option" "nat option"
  | L_run nat
  | L_recv nat "event list"

fun step :: "label \<Rightarrow> Gate \<times> world \<Rightarrow> (Gate \<times> world) outcome" where
  "step (L_open conf listen_ok) (g, w) =
     (case Gate_open conf listen_ok g w of
        Return (b, g1, w1) \<Rightarrow> Return (g1, w1) | Panic x \<Rightarrow> Panic x | Block \<Rightarrow> Block)"
| "step L_close (g, w) =
     (case Gate_close g of
        Return g1 \<Rightarrow> Return (g1, w) | Panic x \<Rightarrow> Panic x | Block \<Rightarrow> Block)"
| "step (L_kick sid) (g, w) =
     (case kick_locked sid g of
        (Some s, g1) \<Rightarrow> Return (g1, spawn (T_kick s) w)
      | (None, g1) \<Rightarrow> Return (g1, w))"
| "step (L_write m) (g, w) =
     (case sessions g (session m) of
        Some s \<Rightarrow> Return (g, spawn (T_write s (data m)) w)
      | None \<Rightarrow> Return (g, w))"
| "step (L_accept i accepted rchoice wchoice) (g, w) =
     (if i < length (threads w) then
        (case threads w ! i of
           T_start sessionId AtAccept \<Rightarrow>
             (case start_accept accepted rchoice wchoice sessionId g w of
                (sid, g1, w1) \<Rightarrow> Return (g1, set_thread i (T_start sid AtSelect) w1))
         | _ \<Rightarrow> Return (g, w))
      else Return (g, w))"
| "step (L_run i) (g, w) =
     (if i < length (threads w) then
        (case thread_step (threads w ! i) g w of
           Return (t, g1, w1) \<Rightarrow> Return (g1, set_thread i t w1)
         | Panic x \<Rightarrow> Panic x
         | Block \<Rightarrow> Return (g, w))
      else Return (g, w))"
| "step (L_recv c evs) (g, w) =
     Return (g, set_conn c ((conns w c)\<lparr>incoming := incoming (conns w c) @ evs\<rparr>) w)"

fun run :: "label list \<Rightarrow> Gate \<times> world \<Rightarrow> (Gate \<times> world) outcome" where
  "run [] c = Return c"
| "run (l # ls) c =
     (case step l c of
        Return c1 \<Rightarrow> run ls c1 | Panic x \<Rightarrow> Panic x | Block \<Rightarrow> Block)"

text \<open>
  The loop of \<open>Gate.start\<close> on its own, over the connections that \<open>Accept\<close> returns one
  after the other (each with the choices of the two pools): the session ids it assigns,
  in order, then the local \<open>sessionId\<close>, the Gate and the world at the end.
\<close>

fun accept_all ::
  "(nat \<times> nat option \<times> nat option) list \<Rightarrow> uint32 \<Rightarrow> Gate \<Rightarrow> world \<Rightarrow>
     uint32 list \<times> uint32 \<times> Gate \<times> world" where
  "accept_all [] sessionId g w = ([], sessionId, g, w)"
| "accept_all ((c, rchoice, wchoice) # cs) sessionId g w =
     (case start_accept (Some c) rchoice wchoice sessionId g w of (sid, g1, w1) \<Rightarrow>
        (case accept_all cs sid g1 w1 of (ids, r) \<Rightarrow> (sid # ids, r)))"

text \<open>The connections \<open>0\<close>, ..., \<open>n - 1\<close>, each with fresh buffered objects.\<close>

definition fresh_conns :: "nat \<Rightarrow> (nat \<times> nat option \<times> nat option) list" where
  "fresh_conns n = map (\<lambda>c. (c, None, None)) [0..<n]"

text \<open>The labels in which \<open>Accept\<close> returns a connection, and how many a sequence has.\<close>

fun is_accept :: "label \<Rightarrow> bool" where
  "is_accept (L_accept i (Some c) rchoice wchoice) = True"
| "is_accept l = False"

definition accept_count :: "label list \<Rightarrow> nat" where
  "accept_count ls = length (filter is_accept ls)"

text \<open>
  An accept is performed by a step when the label is one in which \<open>Accept\<close> returns a
  connection and the thread it names is an accept loop waiting in \<open>Accept\<close>.
  \<open>accepts_done\<close> is the number of accepts performed along a run.
\<close>

fun accept_enabled :: "label \<Rightarrow> Gate \<times> world \<Rightarrow> bool" where
  "accept_enabled (L_accept i (Some c) rchoice wchoice) (g, w) =
     (i < length (threads w) \<and>
      (case threads w ! i of T_start sessionId AtAccept \<Rightarrow> True | _ \<Rightarrow> False))"
| "accept_enabled l c = False"

fun accepts_done :: "label list \<Rightarrow> Gate \<times> world \<Rightarrow> nat" where
  "accepts_done [] c = 0"
| "accepts_done (l # ls) c =
     (case step l c of
        Return c1 \<Rightarrow> (if accept_enabled l c then 1 else 0) + accepts_done ls c1
      | Panic x \<Rightarrow> 0
      | Block \<Rightarrow> 0)"

text \<open>
  \<open>n\<close> passes of the accept loop (thread 0), accepting the connections \<open>m\<close>, \<open>m + 1\<close>, ...
\<close>

definition accept_rounds :: "nat \<Rightarrow> nat \<Rightarrow> label list" where
  "accept_rounds m n = concat (map (\<lambda>c. [L_run 0, L_accept 0 (Some c) None None]) [m..<m + n])"

subsection \<open>The wire format, as the specification words it\<close>

text \<open>
  A frame is a 2-byte big-endian length followed by the bytes. The program has no
  encoder of its own (it only decodes, in \<open>serve\<close>); this one follows the specification.
\<close>

definition frame_encode :: "byte list \<Rightarrow> byte list" where
  "frame_encode p =
     [ucast (drop_bit 8 (of_nat (length p) :: uint16)), ucast (of_nat (length p) :: uint16)] @ p"

subsection \<open>Concrete states\<close>

definition empty_conn :: Conn where
  "empty_conn = \<lparr>incoming = [], sent = [], close_calls = 0, wquota = None\<rparr>"

text \<open>A process that has allocated nothing yet: no connection has traffic, both pools are empty.\<close>

definition world0 :: world where
  "world0 =
     \<lparr>conns = (\<lambda>c. empty_conn),
      bufreaders = (\<lambda>r. None),
      bufwriters = (\<lambda>t. \<lparr>wr = None, wbuf = [], werr = None\<rparr>),
      bufioReaderPool = [],
      bufioWriterPool = [],
      allocated = 0,
      mailbox = [],
      threads = []\<rparr>"

text \<open>A Gate with room for one client that already has one.\<close>

definition gate_full :: Gate where
  "gate_full = (newGate 0)\<lparr>clinetnum := 1, maxclient := 1\<rparr>"

text \<open>A session on connection 0, with buffered reader 0 and buffered writer 1.\<close>

definition session1 :: Session where
  "session1 = \<lparr>sessionid = 1, conn = 0, brw = \<lparr>Reader = 0, Writer = 1\<rparr>\<rparr>"

definition gate1 :: Gate where
  "gate1 = (newGate 0)\<lparr>clinetnum := 1, sessions := [1 \<mapsto> session1]\<rparr>"

definition world1 :: world where
  "world1 =
     world0\<lparr>bufreaders := (\<lambda>r. if r = 0 then Some 0 else None),
            bufwriters := (\<lambda>t. \<lparr>wr = (if t = 1 then Some 0 else None), wbuf = [], werr = None\<rparr>),
            allocated := 2,
            threads := [T_start 1 AtSelect, T_serve session1 [0, 0] AtReadHead]\<rparr>"

text \<open>The same, when connection 0 delivers one byte and then a temporary error.\<close>

definition world_transient :: world where
  "world_transient =
     set_conn 0 (empty_conn\<lparr>incoming := [Byte 1, Fail (NetError True)]\<rparr>) world1"

text \<open>
  The same, when the peer of connection 0 has closed it: at once, and after one byte.
\<close>

definition world_eof :: world where
  "world_eof = set_conn 0 (empty_conn\<lparr>incoming := [Fail EOF]\<rparr>) world1"

definition world_eof_after_byte :: world where
  "world_eof_after_byte = set_conn 0 (empty_conn\<lparr>incoming := [Byte 1, Fail EOF]\<rparr>) world1"

text \<open>The same, when connection 0 delivers the frame of \<open>[104, 105]\<close> and one more byte.\<close>

definition world_frame :: world where
  "world_frame =
     set_conn 0 (empty_conn\<lparr>incoming := map Byte (frame_encode [104, 105]) @ [Byte 7]\<rparr>) world1"

text \<open>The same, with connection 0 closed; and with a transport that takes one more byte.\<close>

definition world_closed :: world where
  "world_closed = conn_Close 0 world1"

definition world_short :: world where
  "world_short = set_conn 0 (empty_conn\<lparr>wquota := Some 1\<rparr>) world1"

text \<open>
  A Gate is opened and accepts connection 0 as session 1. \<open>Write\<close> for session 1 finds
  the session; before it writes, \<open>kick\<close> removes and closes the session.
\<close>

definition write_after_kick :: "label list" where
  "write_after_kick =
     [L_open (NewConf ''127.0.0.1:8000'' 0) True, L_run 0, L_accept 0 (Some 0) None None,
      L_write (NewClientMsg 1 [65]), L_kick 1, L_run 3, L_run 2]"

text \<open>
  A Gate is opened and accepts connection 0 as session 1. The connection is reset by
  the peer and the read of the header fails. Before the read loop enters
  \<open>closeSession\<close>, \<open>kick\<close> finds session 1 in the map and removes it; then the read loop
  runs \<open>closeSession\<close> to its end, and \<open>kick\<close> goes on to close the session it found.
\<close>

definition kick_during_cleanup :: "label list" where
  "kick_during_cleanup =
     [L_open (NewConf ''127.0.0.1:8000'' 0) True, L_run 0, L_accept 0 (Some 0) None None,
      L_recv 0 [Fail (NetError False)], L_run 1, L_kick 1, L_run 1, L_run 1, L_run 2]"

text \<open>
  A Gate is opened and accepts connection 0 as session 1, whose read loop waits for a
  header. \<open>kick\<close> removes and closes the session; the read fails on the closed
  connection and the read loop runs \<open>closeSession\<close>.
\<close>

definition kick_idle_session :: "label list" where
  "kick_idle_session =
     [L_open (NewConf ''127.0.0.1:8000'' 0) True, L_run 0, L_accept 0 (Some 0) None None,
      L_run 1, L_kick 1, L_run 2, L_run 1, L_run 1, L_run 1]"

text \<open>A Gate for one client is opened and accepts connection 0, then connection 1.\<close>

definition accept_over_limit :: "label list" where
  "accept_over_limit =
     [L_open (NewConf ''127.0.0.1:8000'' 1) True, L_run 0, L_accept 0 (Some 0) None None,
      L_run 0, L_accept 0 (Some 1) None None]"

section \<open>Properties\<close>

lemmas state_defs =
  world0_def world1_def empty_conn_def session1_def gate1_def gate_full_def newGate_def
  world_transient_def world_frame_def world_closed_def world_short_def
  world_eof_def world_eof_after_byte_def
  NewConf_def NewClientMsg_def

lemmas store_defs =
  set_conn_def conn_Close_def closed_def set_bufwriter_def reader_Reset_def writer_Reset_def
  pool_Put_def pool_Get_def spawn_def set_thread_def Push_def

lemmas gate_defs =
  Gate_open_def Gate_close_def start_select_def start_accept_def newSession_def
  newBufioReader_def newBufioWriter_def putBufioReader_def putBufioWriter_def
  Session_Close_def kick_locked_def closeSession_locked_def serve_ReadHead_def
  serve_ReadData_def Session_ReadFull_def io_ReadFull_def serve_ReadHead_from_def
  serve_ReadData_from_def Session_ReadFull_from_def io_ReadFull_from_def waiting_def

lemmas write_defs =
  Session_Write_def bufio_Write_def bufio_Flush_def bufio_Write_loop.simps conn_Write_def
  Available_def defaultBufSize_def errClosed_def

subsection \<open>Creating and closing a session\<close>

lemma newBufioReader_frame:
  "newBufioReader c choice w = (br, w1) \<Longrightarrow>
     conns w1 = conns w \<and> threads w1 = threads w \<and> mailbox w1 = mailbox w \<and>
     bufwriters w1 = bufwriters w \<and> bufioWriterPool w1 = bufioWriterPool w \<and>
     bufreaders w1 br = Some c"
  by (auto simp: newBufioReader_def reader_Reset_def split: prod.splits option.splits)

lemma newBufioWriter_frame:
  "newBufioWriter c choice w = (bw, w1) \<Longrightarrow>
     conns w1 = conns w \<and> threads w1 = threads w \<and> mailbox w1 = mailbox w \<and>
     bufreaders w1 = bufreaders w \<and> bufioReaderPool w1 = bufioReaderPool w \<and>
     bufwriters w1 bw = \<lparr>wr = Some c, wbuf = [], werr = None\<rparr>"
  by (auto simp: newBufioWriter_def writer_Reset_def set_bufwriter_def
           split: prod.splits option.splits)

lemma newSession_frame:
  assumes "newSession sid c rchoice wchoice w = (s, w1)"
  shows "sessionid s = sid" and "conn s = c"
    and "conns w1 = conns w" and "threads w1 = threads w" and "mailbox w1 = mailbox w"
    and "bufreaders w1 (Reader (brw s)) = Some c"
    and "bufwriters w1 (Writer (brw s)) = \<lparr>wr = Some c, wbuf = [], werr = None\<rparr>"
  using assms
  by (auto simp: newSession_def split: prod.splits
           dest!: newBufioReader_frame newBufioWriter_frame)

lemma Session_Close_effects:
  "closed (conns (Session_Close s w) (conn s))"
  "close_calls (conns (Session_Close s w) (conn s)) = Suc (close_calls (conns w (conn s)))"
  "bufioReaderPool (Session_Close s w) = bufioReaderPool w @ [Reader (brw s)]"
  "bufioWriterPool (Session_Close s w) = bufioWriterPool w @ [Writer (brw s)]"
  "bufreaders (Session_Close s w) (Reader (brw s)) = None"
  "bufwriters (Session_Close s w) (Writer (brw s)) = \<lparr>wr = None, wbuf = [], werr = None\<rparr>"
  by (simp_all add: Session_Close_def conn_Close_def set_conn_def putBufioWriter_def
        putBufioReader_def writer_Reset_def reader_Reset_def set_bufwriter_def pool_Put_def
        closed_def Let_def)

lemma start_accept_result:
  assumes "start_accept (Some c) rchoice wchoice sessionId g w = (sid, g1, w1)"
  shows "sid = sessionId + 1"
    and "clinetnum g1 = clinetnum g + 1"
    and "quit g1 = quit g"
    and "\<exists>s. sessions g1 sid = Some s \<and> sessionid s = sid \<and> conn s = c \<and>
             threads w1 = threads w @ [T_serve s [0, 0] AtReadHead]"
proof -
  let ?w = "if maxclient g \<noteq> 0 \<and> maxclient g \<le> clinetnum g then conn_Close c w else w"
  obtain s w2 where ns: "newSession (sessionId + 1) c rchoice wchoice ?w = (s, w2)"
    by (cases "newSession (sessionId + 1) c rchoice wchoice ?w")
  have t: "threads ?w = threads w" by (simp add: conn_Close_def set_conn_def)
  from assms ns have r: "sid = sessionId + 1"
      "g1 = g\<lparr>clinetnum := clinetnum g + 1, sessions := (sessions g)(sessionId + 1 \<mapsto> s)\<rparr>"
      "w1 = spawn (T_serve s [0, 0] AtReadHead) w2"
    by (auto simp: start_accept_def Let_def)
  show "sid = sessionId + 1" "clinetnum g1 = clinetnum g + 1" "quit g1 = quit g"
    using r by simp_all
  show "\<exists>s. sessions g1 sid = Some s \<and> sessionid s = sid \<and> conn s = c \<and>
             threads w1 = threads w @ [T_serve s [0, 0] AtReadHead]"
    using r t newSession_frame [OF ns] by (simp add: spawn_def)
qed

lemma run_append:
  "run (xs @ ys) c =
     (case run xs c of Return c1 \<Rightarrow> run ys c1 | Panic x \<Rightarrow> Panic x | Block \<Rightarrow> Block)"
  by (induction xs arbitrary: c) (auto split: outcome.splits)

text \<open>The two steps in which the read loop leaves are \<open>closeSession\<close>.\<close>

lemma closeSession_in_two_steps:
  "thread_step (T_serve s head AtCloseSession) g w =
     Return (T_serve s head AtSessionClose, closeSession_locked s g, w) \<and>
   thread_step (T_serve s head AtSessionClose) (closeSession_locked s g) w =
     Return (T_serve s head ServeReturned, fst (closeSession s g w), snd (closeSession s g w))"
  by (simp add: closeSession_def)

subsection \<open>The accept loop at the limit\<close>

text \<open>
  C1. When \<open>maxclient\<close> is not 0 and \<open>clinetnum\<close> has reached it, the accept loop closes
  the connection it has just accepted, and goes on all the same: it increments
  \<open>clinetnum\<close>, takes the next session id, builds a Session on the closed connection,
  enters it in \<open>sessions\<close> and starts its read loop.
\<close>

theorem reject_still_creates_session:
  assumes "maxclient g \<noteq> 0" and "maxclient g \<le> clinetnum g"
    and "start_accept (Some c) rchoice wchoice sessionId g w = (sid, g1, w1)"
  shows "close_calls (conns w1 c) = Suc (close_calls (conns w c)) \<and>
         closed (conns w1 c) \<and>
         clinetnum g1 = clinetnum g + 1 \<and>
         sid = sessionId + 1 \<and>
         (\<exists>s. sessions g1 sid = Some s \<and> sessionid s = sid \<and> conn s = c \<and>
              bufreaders w1 (Reader (brw s)) = Some c \<and>
              wr (bufwriters w1 (Writer (brw s))) = Some c \<and>
              threads w1 = threads w @ [T_serve s [0, 0] AtReadHead])"
proof -
  obtain s w2 where ns: "newSession (sessionId + 1) c rchoice wchoice (conn_Close c w) = (s, w2)"
    by (cases "newSession (sessionId + 1) c rchoice wchoice (conn_Close c w)")
  from assms ns have r: "sid = sessionId + 1"
      "g1 = g\<lparr>clinetnum := clinetnum g + 1, sessions := (sessions g)(sessionId + 1 \<mapsto> s)\<rparr>"
      "w1 = spawn (T_serve s [0, 0] AtReadHead) w2"
    by (auto simp: start_accept_def Let_def)
  note f = newSession_frame [OF ns]
  have c: "conns w1 c = (conns w c)\<lparr>close_calls := Suc (close_calls (conns w c))\<rparr>"
    using r f by (simp add: spawn_def conn_Close_def set_conn_def)
  show ?thesis
    using r f c by (simp add: spawn_def closed_def conn_Close_def set_conn_def)
qed

theorem reject_still_creates_session_witness:
  "maxclient gate_full \<noteq> 0 \<and> maxclient gate_full \<le> clinetnum gate_full \<and>
   (case start_accept (Some 7) None None 1 gate_full world0 of (sid, g1, w1) \<Rightarrow>
      close_calls (conns w1 7) = 1 \<and> clinetnum g1 = 2 \<and> sid = 2 \<and>
      (\<exists>s. sessions g1 2 = Some s \<and> conn s = 7 \<and>
           threads w1 = [T_serve s [0, 0] AtReadHead]))"
proof -
  have h1: "maxclient gate_full \<noteq> 0" and h2: "maxclient gate_full \<le> clinetnum gate_full"
    by (simp_all add: state_defs)
  obtain sid g1 w1 where e: "start_accept (Some 7) None None 1 gate_full world0 = (sid, g1, w1)"
    by (cases "start_accept (Some 7) None None 1 gate_full world0")
  from reject_still_creates_session [OF h1 h2 e] h1 h2 e show ?thesis
    by (auto simp: state_defs)
qed

subsection \<open>Reading\<close>

text \<open>
  What \<open>Session.ReadFull\<close> makes of the result of \<open>io.ReadFull\<close>: it returns an error
  exactly when that error implements \<open>net.Error\<close> and is not temporary, and then it
  returns that error; a temporary one gives nil, whatever has been read into the buffer.
\<close>

lemma Session_ReadFull_returns_fatal_net_errors:
  assumes "io_ReadFull (Reader (brw s)) buf w = Return (n, e, buf', w1)"
  shows "\<exists>r. Session_ReadFull s buf w = Return (r, buf', w1) \<and>
             (r \<noteq> None \<longleftrightarrow> e = Some (NetError False)) \<and>
             (r \<noteq> None \<longrightarrow> r = e) \<and>
             (e = Some (NetError True) \<longrightarrow> r = None)"
proof (cases e)
  case None
  with assms show ?thesis
    by (simp add: Session_ReadFull_def Session_ReadFull_from_def io_ReadFull_def)
next
  case (Some x)
  with assms show ?thesis
    by (cases x) (simp_all add: Session_ReadFull_def Session_ReadFull_from_def io_ReadFull_def)
qed

lemma Session_ReadFull_temporary_error:
  "io_ReadFull (Reader (brw session1)) [0, 0] world_transient =
     Return (1, Some (NetError True), [1, 0], world1) \<and>
   Session_ReadFull session1 [0, 0] world_transient = Return (None, [1, 0], world1)"
  by (simp add: gate_defs state_defs store_defs fun_upd_idem_iff)

lemma Session_ReadFull_after_byte_at_EOF:
  "io_ReadFull (Reader (brw session1)) [0, 0] world_eof_after_byte =
     Return (1, Some ErrUnexpectedEOF, [1, 0], world_eof) \<and>
   Session_ReadFull session1 [0, 0] world_eof_after_byte = Return (None, [1, 0], world_eof)"
  by (simp add: gate_defs state_defs store_defs)

text \<open>
  At the end of the stream the read loop goes round without end: one pass leaves the
  Gate and the thread as they were and adds a message of the stale header's length
  (here 0) to the mailbox.
\<close>

lemma serve_pass_at_EOF:
  "run [L_run 1, L_run 1] (gate1, world_eof\<lparr>mailbox := m\<rparr>) =
     Return (gate1, world_eof\<lparr>mailbox := m @ [NewClientMsg 1 []]\<rparr>)"
  by (simp add: gate_defs state_defs store_defs BigEndian_Uint16_def)

lemma serve_spins_at_EOF:
  "run (concat (replicate n [L_run 1, L_run 1])) (gate1, world_eof\<lparr>mailbox := m\<rparr>) =
     Return (gate1, world_eof\<lparr>mailbox := m @ replicate n (NewClientMsg 1 [])\<rparr>)"
proof (induction n arbitrary: m)
  case 0
  show ?case by simp
next
  case (Suc n)
  have e: "concat (replicate (Suc n) [L_run 1, L_run 1]) =
             [L_run 1, L_run 1] @ concat (replicate n [L_run 1, L_run 1])"
    by simp
  show ?case
    unfolding e run_append serve_pass_at_EOF
    using Suc.IH [of "m @ [NewClientMsg 1 []]"] by (simp add: replicate_app_Cons_same)
qed

text \<open>
  C3 does not hold of the program. When the peer has closed the connection, the read
  fails for good: \<open>io.ReadFull\<close> returns \<open>io.EOF\<close>, and no byte will come any more. But
  \<open>io.EOF\<close> does not implement \<open>net.Error\<close>, and \<open>Session.ReadFull\<close> returns nil. The read
  loop takes the header for read: after one pass it has pushed a message and stands at
  the read of the header again, session 1 still in the map and its connection never
  closed.
\<close>

theorem Session_ReadFull_swallows_EOF:
  "io_ReadFull (Reader (brw session1)) [0, 0] world_eof = Return (0, Some EOF, [0, 0], world_eof) \<and>
   Session_ReadFull session1 [0, 0] world_eof = Return (None, [0, 0], world_eof) \<and>
   sessions gate1 1 = Some session1 \<and>
   threads world_eof ! 1 = T_serve session1 [0, 0] AtReadHead \<and>
   run [L_run 1, L_run 1] (gate1, world_eof) =
     Return (gate1, world_eof\<lparr>mailbox := [NewClientMsg 1 []]\<rparr>)"
proof -
  have "world_eof\<lparr>mailbox := []\<rparr> = world_eof"
    by (simp add: state_defs store_defs)
  with serve_pass_at_EOF [of "[]"]
  have "run [L_run 1, L_run 1] (gate1, world_eof) =
          Return (gate1, world_eof\<lparr>mailbox := [NewClientMsg 1 []]\<rparr>)"
    by simp
  moreover have "io_ReadFull (Reader (brw session1)) [0, 0] world_eof =
                   Return (0, Some EOF, [0, 0], world_eof)"
    by (simp add: gate_defs state_defs store_defs fun_upd_idem_iff)
  moreover have "Session_ReadFull session1 [0, 0] world_eof = Return (None, [0, 0], world_eof)"
    by (simp add: gate_defs state_defs store_defs fun_upd_idem_iff)
  moreover have "sessions gate1 1 = Some session1"
    "threads world_eof ! 1 = T_serve session1 [0, 0] AtReadHead"
    by (simp_all add: state_defs store_defs)
  ultimately show ?thesis by simp
qed

subsection \<open>Writing to a session that is not there\<close>

text \<open>
  C6. \<open>Gate.Write\<close> for a session id that is not in \<open>sessions\<close> returns, without a panic,
  and changes nothing: not the world, and (as a step of the Gate) not the Gate either.
\<close>

theorem Gate_Write_absent_is_noop:
  assumes "sessions g (session m) = None"
  shows "Gate_Write (Some g) (Some m) w = Return w \<and> step (L_write m) (g, w) = Return (g, w)"
  using assms by (simp add: Gate_Write_def)

theorem Gate_Write_absent_is_noop_witness:
  "sessions gate1 (session (NewClientMsg 9 [65])) = None \<and>
   Gate_Write (Some gate1) (Some (NewClientMsg 9 [65])) world1 = Return world1 \<and>
   step (L_write (NewClientMsg 9 [65])) (gate1, world1) = Return (gate1, world1)"
proof -
  have h: "sessions gate1 (session (NewClientMsg 9 [65])) = None"
    by (simp add: state_defs)
  from Gate_Write_absent_is_noop [OF h] h show ?thesis by simp
qed

subsection \<open>An envelope for an address without a Gate\<close>

text \<open>
  C8. \<open>GateResponseDispatch\<close> for an address that has no Gate in \<open>GATES\<close> never returns:
  it panics, whatever its arguments are, and with a message as its first argument the
  panic is the nil dereference in \<open>Gate.Write\<close>.
\<close>

theorem GateResponseDispatch_unregistered_panics:
  assumes "GATES src = None"
  shows "(\<exists>p. GateResponseDispatch GATES src args w = Panic p) \<and>
         (\<forall>mp rest. args = ArgClientMsg mp # rest \<longrightarrow>
            GateResponseDispatch GATES src args w = Panic NilDereference)"
  using assms
  by (auto simp: GateResponseDispatch_def Gate_Write_def split: list.splits arg.splits)

theorem GateResponseDispatch_unregistered_panics_witness:
  "GateDispatch Map.empty 0 1 = None \<and>
   GateResponseDispatch (GateDispatch Map.empty 0) 1
     [ArgClientMsg (Some (NewClientMsg 1 [65]))] world0 = Panic NilDereference"
proof -
  have h: "GateDispatch Map.empty 0 1 = None"
    by (simp add: GateDispatch_def)
  from GateResponseDispatch_unregistered_panics
         [of "GateDispatch Map.empty 0" 1 "[ArgClientMsg (Some (NewClientMsg 1 [65]))]" world0] h
  show ?thesis by simp
qed

subsection \<open>kick\<close>

text \<open>
  C5. \<open>kick\<close> of an id that is in \<open>sessions\<close>: the critical section removes the entry
  and nothing else, the session is closed after it (its socket closed, its buffered
  reader and writer put into the pools), and a \<open>Write\<close> for that id then does nothing.
  \<open>kick\<close> of an id that is not there changes nothing.
\<close>

theorem kick_removes_then_closes:
  "(sessions g sid = None \<longrightarrow>
      kick sid g w = (g, w) \<and> step (L_kick sid) (g, w) = Return (g, w)) \<and>
   (\<forall>s. sessions g sid = Some s \<longrightarrow>
      step (L_kick sid) (g, w) =
        Return (g\<lparr>sessions := (sessions g)(sid := None)\<rparr>, spawn (T_kick s) w) \<and>
      kick sid g w = (g\<lparr>sessions := (sessions g)(sid := None)\<rparr>, Session_Close s w) \<and>
      closed (conns (Session_Close s w) (conn s)) \<and>
      Reader (brw s) \<in> set (bufioReaderPool (Session_Close s w)) \<and>
      Writer (brw s) \<in> set (bufioWriterPool (Session_Close s w)) \<and>
      (\<forall>d. Gate_Write (Some (fst (kick sid g w))) (Some (NewClientMsg sid d)) (snd (kick sid g w)) =
              Return (snd (kick sid g w))))"
  by (auto simp: kick_def kick_locked_def Gate_Write_def NewClientMsg_def Session_Close_effects)

theorem kick_removes_then_closes_witness:
  "sessions gate1 2 = None \<and> kick 2 gate1 world1 = (gate1, world1) \<and>
   sessions gate1 1 = Some session1 \<and>
   kick 1 gate1 world1 = (gate1\<lparr>sessions := (sessions gate1)(1 := None)\<rparr>, Session_Close session1 world1) \<and>
   closed (conns (Session_Close session1 world1) 0) \<and>
   bufioReaderPool (Session_Close session1 world1) = [0] \<and>
   bufioWriterPool (Session_Close session1 world1) = [1] \<and>
   Gate_Write (Some (fst (kick 1 gate1 world1))) (Some (NewClientMsg 1 [65])) (snd (kick 1 gate1 world1)) =
     Return (snd (kick 1 gate1 world1))"
proof -
  have h1: "sessions gate1 2 = None" and h2: "sessions gate1 1 = Some session1"
    by (simp_all add: state_defs)
  have c: "conn session1 = 0" by (simp add: session1_def)
  have p: "bufioReaderPool (Session_Close session1 world1) = [0]"
          "bufioWriterPool (Session_Close session1 world1) = [1]"
    by (simp_all add: Session_Close_effects) (simp_all add: state_defs)
  from kick_removes_then_closes [of gate1 2 world1] kick_removes_then_closes [of gate1 1 world1]
       h1 h2 c p
  show ?thesis by auto
qed

subsection \<open>Decoding a frame\<close>

lemma read_events_bytes:
  "read_events (length xs) (map Byte xs @ rest) = Some (xs, None, rest)"
  by (induction xs) simp_all

lemma io_ReadFull_bytes:
  assumes "bufreaders w r = Some c" and "\<not> closed (conns w c)"
    and "incoming (conns w c) = map Byte xs @ rest" and "length buf = length xs"
  shows "io_ReadFull r buf w =
           Return (length xs, None, xs,
                   if xs = [] then w else set_conn c ((conns w c)\<lparr>incoming := rest\<rparr>) w)"
  using assms read_events_bytes [of xs rest]
  by (auto simp: io_ReadFull_def io_ReadFull_from_def)

lemma Session_ReadFull_bytes:
  assumes "bufreaders w (Reader (brw s)) = Some c" and "\<not> closed (conns w c)"
    and "incoming (conns w c) = map Byte xs @ rest" and "length buf = length xs"
  shows "Session_ReadFull s buf w =
           Return (None, xs,
                   if xs = [] then w else set_conn c ((conns w c)\<lparr>incoming := rest\<rparr>) w)"
  using io_ReadFull_bytes [OF assms, unfolded io_ReadFull_def] assms(1)
  by (simp add: Session_ReadFull_def Session_ReadFull_from_def)

lemma Uint16_of_bytes:
  "BigEndian_Uint16 [ucast (drop_bit 8 (l :: uint16)), ucast l] = Return l"
proof -
  have "(ucast (ucast l :: byte) :: uint16) OR push_bit 8 (ucast (ucast (drop_bit 8 l) :: byte)) = l"
    by (rule bit_word_eqI) (auto simp: bit_simps)
  then show ?thesis by (simp add: BigEndian_Uint16_def)
qed

text \<open>
  C7. A payload of at most 65535 bytes, encoded as a frame and delivered on the
  connection of a session, is decoded by one pass of the read loop (the read of the
  2-byte header, then the read of as many bytes as the header says): exactly the
  payload is pushed to the destination, under the session's id, and the read loop
  stands right behind the frame.
\<close>

theorem frame_roundtrip:
  assumes "length p \<le> 65535"
    and "length head = 2"
    and "bufreaders w (Reader (brw s)) = Some c"
    and "\<not> closed (conns w c)"
    and "incoming (conns w c) = map Byte (frame_encode p) @ rest"
  shows "\<exists>head1 w1 w2.
           serve_ReadHead s head w = Return (T_serve s head1 AtReadData, w1) \<and>
           serve_ReadData s head1 w1 = Return (T_serve s head1 AtReadHead, w2) \<and>
           mailbox w2 = mailbox w @ [NewClientMsg (sessionid s) p] \<and>
           incoming (conns w2 c) = rest"
proof -
  let ?l = "of_nat (length p) :: uint16"
  let ?h = "[ucast (drop_bit 8 ?l), ucast ?l] :: byte list"
  let ?w1 = "set_conn c ((conns w c)\<lparr>incoming := map Byte p @ rest\<rparr>) w"
  have inc: "incoming (conns w c) = map Byte ?h @ (map Byte p @ rest)"
    using assms(5) by (simp add: frame_encode_def)
  have "Session_ReadFull s head w = Return (None, ?h, ?w1)"
    using Session_ReadFull_bytes [OF assms(3,4) inc, of head] assms(2) by simp
  then have h: "serve_ReadHead s head w = Return (T_serve s ?h AtReadData, ?w1)"
    by (simp add: serve_ReadHead_def serve_ReadHead_from_def Session_ReadFull_def)
  have len: "unat ?l = length p"
    using assms(1) by (simp add: unat_of_nat take_bit_nat_eq_self)
  have r1: "bufreaders ?w1 (Reader (brw s)) = Some c" "\<not> closed (conns ?w1 c)"
       "incoming (conns ?w1 c) = map Byte p @ rest"
    using assms(3,4) by (simp_all add: set_conn_def closed_def)
  let ?w2 = "if p = [] then ?w1 else set_conn c ((conns ?w1 c)\<lparr>incoming := rest\<rparr>) ?w1"
  have "Session_ReadFull s (replicate (unat ?l) 0) ?w1 = Return (None, p, ?w2)"
    using Session_ReadFull_bytes [OF r1, of "replicate (unat ?l) 0"] len by simp
  then have d: "serve_ReadData s ?h ?w1 =
                  Return (T_serve s ?h AtReadHead, Push (NewClientMsg (sessionid s) p) ?w2)"
    by (simp add: serve_ReadData_def serve_ReadData_from_def Session_ReadFull_def
                  Uint16_of_bytes)
  have m: "mailbox (Push (NewClientMsg (sessionid s) p) ?w2) =
             mailbox w @ [NewClientMsg (sessionid s) p]"
    by (simp add: Push_def set_conn_def)
  have i: "incoming (conns (Push (NewClientMsg (sessionid s) p) ?w2) c) = rest"
    by (simp add: Push_def set_conn_def)
  from h d m i show ?thesis by blast
qed

theorem frame_roundtrip_witness:
  "length [104, 105 :: byte] \<le> 65535 \<and> length [0, 0 :: byte] = 2 \<and>
   bufreaders world_frame (Reader (brw session1)) = Some 0 \<and>
   \<not> closed (conns world_frame 0) \<and>
   incoming (conns world_frame 0) = map Byte (frame_encode [104, 105]) @ [Byte 7] \<and>
   (\<exists>head1 w1 w2.
      serve_ReadHead session1 [0, 0] world_frame = Return (T_serve session1 head1 AtReadData, w1) \<and>
      serve_ReadData session1 head1 w1 = Return (T_serve session1 head1 AtReadHead, w2) \<and>
      mailbox w2 = [NewClientMsg 1 [104, 105]] \<and>
      incoming (conns w2 0) = [Byte 7])"
proof -
  have h1: "length [104, 105 :: byte] \<le> 65535" and h2: "length [0, 0 :: byte] = 2" by simp_all
  have h3: "bufreaders world_frame (Reader (brw session1)) = Some 0"
    and h4: "\<not> closed (conns world_frame 0)"
    and h5: "incoming (conns world_frame 0) = map Byte (frame_encode [104, 105]) @ [Byte 7]"
    by (simp_all add: state_defs store_defs)
  have m: "mailbox world_frame = []" and s: "sessionid session1 = 1"
    by (simp_all add: state_defs store_defs)
  from frame_roundtrip [OF h1 h2 h3 h4 h5] h3 h4 h5 m s show ?thesis by simp
qed

subsection \<open>Writing\<close>

lemma conn_Write_bufwriters:
  "conn_Write c p w = (n, e, w1) \<Longrightarrow> bufwriters w1 = bufwriters w"
  by (auto simp: conn_Write_def set_conn_def Let_def split: if_splits option.splits)

lemma bufio_Flush_bound:
  assumes "wr (bufwriters w i) = Some c"
  shows "\<exists>e w1. bufio_Flush i w = Return (e, w1) \<and> wr (bufwriters w1 i) = Some c"
proof -
  obtain n err w1 where cw: "conn_Write c (wbuf (bufwriters w i)) w = (n, err, w1)"
    by (cases "conn_Write c (wbuf (bufwriters w i)) w")
  from conn_Write_bufwriters [OF cw] assms cw show ?thesis
    by (auto simp: bufio_Flush_def Let_def set_bufwriter_def split: option.splits)
qed

lemma bufio_Write_loop_bound:
  "wr (bufwriters w i) = Some c \<Longrightarrow>
     \<exists>nn' rest w1. bufio_Write_loop i p nn w = Return (nn', rest, w1) \<and>
                   wr (bufwriters w1 i) = Some c"
proof (induction i p nn w rule: bufio_Write_loop.induct)
  case (1 i p nn w)
  let ?b = "bufwriters w i"
  show ?case
  proof (cases "Available ?b < length p \<and> werr ?b = None")
    case False
    then have "bufio_Write_loop i p nn w = Return (nn, p, w)"
      by (subst bufio_Write_loop.simps) (auto simp: Let_def)
    with "1.prems" show ?thesis by simp
  next
    case big: True
    show ?thesis
    proof (cases "wbuf ?b = []")
      case True
      obtain n err w1 where cw: "conn_Write c p w = (n, err, w1)"
        by (cases "conn_Write c p w")
      have "wr (bufwriters (set_bufwriter i (?b\<lparr>werr := err\<rparr>) w1) i) = Some c"
        using "1.prems" by (simp add: set_bufwriter_def)
      from "1.IH"(1) [OF refl big True "1.prems" cw [symmetric] refl this]
      show ?thesis using big True "1.prems" cw
        by (subst bufio_Write_loop.simps) (simp add: Let_def)
    next
      case False
      let ?n = "min (Available ?b) (length p)"
      let ?w = "set_bufwriter i (?b\<lparr>wbuf := wbuf ?b @ take ?n p\<rparr>) w"
      have "wr (bufwriters ?w i) = Some c"
        using "1.prems" by (simp add: set_bufwriter_def)
      from bufio_Flush_bound [OF this] obtain e w1
        where fl: "bufio_Flush i ?w = Return (e, w1)" and b1: "wr (bufwriters w1 i) = Some c"
        by blast
      from "1.IH"(2) [OF refl big False refl fl refl b1]
      show ?thesis using big False fl
        by (subst bufio_Write_loop.simps) (simp add: Let_def)
    qed
  qed
qed

lemma bufio_Write_bound:
  assumes "wr (bufwriters w i) = Some c"
  shows "\<exists>nn e w1. bufio_Write i p w = Return (nn, e, w1) \<and> wr (bufwriters w1 i) = Some c"
proof -
  from bufio_Write_loop_bound [OF assms, of p 0] obtain nn' rest w1
    where "bufio_Write_loop i p 0 w = Return (nn', rest, w1)" "wr (bufwriters w1 i) = Some c"
    by blast
  then show ?thesis
    by (auto simp: bufio_Write_def Let_def set_bufwriter_def split: option.splits)
qed

text \<open>
  C10, as far as it holds. While the buffered writer of the session is bound to a
  connection, \<open>Session.Write\<close> returns for every data: the buffered write and the flush
  both return, each with its count and error, and the result of \<open>Session.Write\<close> is
  the world after the flush and nothing else. That covers a connection that is closed
  and a write that is short.
\<close>

theorem Session_Write_drops_errors:
  assumes "wr (bufwriters w (Writer (brw s))) = Some c"
  shows "\<exists>nn e1 w1 e2 w2.
           bufio_Write (Writer (brw s)) d w = Return (nn, e1, w1) \<and>
           bufio_Flush (Writer (brw s)) w1 = Return (e2, w2) \<and>
           Session_Write s d w = Return w2"
proof -
  from bufio_Write_bound [OF assms] obtain nn e1 w1
    where a: "bufio_Write (Writer (brw s)) d w = Return (nn, e1, w1)"
      and b: "wr (bufwriters w1 (Writer (brw s))) = Some c"
    by blast
  from bufio_Flush_bound [OF b] obtain e2 w2
    where c: "bufio_Flush (Writer (brw s)) w1 = Return (e2, w2)" by blast
  from a c show ?thesis by (simp add: Session_Write_def)
qed

lemma Flush_on_closed:
  "bufio_Flush 1 (set_bufwriter 1 \<lparr>wr = Some 0, wbuf = [65], werr = None\<rparr> world_closed) =
     Return (Some errClosed,
             set_bufwriter 1 \<lparr>wr = Some 0, wbuf = [65], werr = Some errClosed\<rparr> world_closed)"
  by (simp add: write_defs state_defs store_defs)

lemma Write_on_closed:
  "bufio_Write 1 [65] world_closed =
     Return (1, None, set_bufwriter 1 \<lparr>wr = Some 0, wbuf = [65], werr = None\<rparr> world_closed)"
  by (simp add: write_defs state_defs store_defs)

lemma Write_on_short:
  "bufio_Write 1 [65, 66] world_short =
     Return (2, None, set_bufwriter 1 \<lparr>wr = Some 0, wbuf = [65, 66], werr = None\<rparr> world_short)"
  by (simp add: write_defs state_defs store_defs)

lemma Flush_on_short:
  "\<exists>w2. bufio_Flush 1 (set_bufwriter 1 \<lparr>wr = Some 0, wbuf = [65, 66], werr = None\<rparr> world_short) =
     Return (Some (NetError False), w2) \<and> sent (conns w2 0) = [65]"
  by (simp add: write_defs state_defs store_defs)

theorem Session_Write_drops_errors_witness:
  "wr (bufwriters world_closed (Writer (brw session1))) = Some 0 \<and>
   (\<exists>w1 w2. bufio_Write 1 [65] world_closed = Return (1, None, w1) \<and>
            bufio_Flush 1 w1 = Return (Some errClosed, w2) \<and>
            Session_Write session1 [65] world_closed = Return w2) \<and>
   wr (bufwriters world_short (Writer (brw session1))) = Some 0 \<and>
   (\<exists>w1 w2. bufio_Write 1 [65, 66] world_short = Return (2, None, w1) \<and>
            bufio_Flush 1 w1 = Return (Some (NetError False), w2) \<and>
            sent (conns w2 0) = [65] \<and>
            Session_Write session1 [65, 66] world_short = Return w2)"
proof -
  have h1: "wr (bufwriters world_closed (Writer (brw session1))) = Some 0"
    and h2: "wr (bufwriters world_short (Writer (brw session1))) = Some 0"
    by (simp_all add: state_defs store_defs)
  have w: "Writer (brw session1) = 1" by (simp add: session1_def)
  from Session_Write_drops_errors [OF h1, of "[65]"] Write_on_closed Flush_on_closed w
  have a: "\<exists>w1 w2. bufio_Write 1 [65] world_closed = Return (1, None, w1) \<and>
            bufio_Flush 1 w1 = Return (Some errClosed, w2) \<and>
            Session_Write session1 [65] world_closed = Return w2"
    by auto
  from Flush_on_short obtain v where
    v: "bufio_Flush 1 (set_bufwriter 1 \<lparr>wr = Some 0, wbuf = [65, 66], werr = None\<rparr> world_short) =
          Return (Some (NetError False), v)" "sent (conns v 0) = [65]"
    by blast
  from Session_Write_drops_errors [OF h2, of "[65, 66]"] Write_on_short v w
  have b: "\<exists>w1 w2. bufio_Write 1 [65, 66] world_short = Return (2, None, w1) \<and>
            bufio_Flush 1 w1 = Return (Some (NetError False), w2) \<and>
            sent (conns w2 0) = [65] \<and>
            Session_Write session1 [65, 66] world_short = Return w2"
    by auto
  from h1 h2 a b show ?thesis by blast
qed

text \<open>
  C10 as it is worded, "for every input it returns normally", fails for a session that
  has been closed: \<open>Session.Close\<close> resets the buffered writer to nil, and a write of one
  byte then panics in the flush. \<open>Gate.Write\<close> reaches that state when \<open>kick\<close> closes the
  session between its lookup and its write.
\<close>

theorem Session_Write_after_Close_panics:
  "Session_Write session1 [65] (Session_Close session1 world1) = Panic NilDereference \<and>
   run write_after_kick (newGate 0, world0) = Panic NilDereference"
proof
  show "Session_Write session1 [65] (Session_Close session1 world1) = Panic NilDereference"
    by (simp add: write_defs gate_defs state_defs store_defs Let_def)
  show "run write_after_kick (newGate 0, world0) = Panic NilDereference"
    by (simp add: write_after_kick_def write_defs gate_defs state_defs store_defs Let_def)
qed

subsection \<open>Session ids\<close>

lemma accept_all_ids:
  "accept_all cs sessionId g w = (ids, sid', g', w') \<Longrightarrow>
     length ids = length cs \<and> sid' = sessionId + of_nat (length cs) \<and>
     (\<forall>k < length cs. ids ! k = sessionId + of_nat (Suc k))"
proof (induction cs arbitrary: sessionId g w ids)
  case Nil
  then show ?case by simp
next
  case (Cons x cs)
  obtain c rchoice wchoice where x: "x = (c, rchoice, wchoice)" by (cases x)
  obtain sid g1 w1 where sa: "start_accept (Some c) rchoice wchoice sessionId g w = (sid, g1, w1)"
    by (cases "start_accept (Some c) rchoice wchoice sessionId g w")
  obtain ids1 where aa: "accept_all cs sid g1 w1 = (ids1, sid', g', w')" and ids: "ids = sid # ids1"
    using Cons.prems x sa by (auto split: prod.splits)
  note ih = Cons.IH [OF aa]
  have sid: "sid = sessionId + 1" using start_accept_result(1) [OF sa] .
  show ?case
  proof (intro conjI allI impI)
    show "length ids = length (x # cs)" using ih ids by simp
    show "sid' = sessionId + of_nat (length (x # cs))" using ih sid by simp
    fix k assume "k < length (x # cs)"
    then show "ids ! k = sessionId + of_nat (Suc k)"
      using ih ids sid by (cases k) simp_all
  qed
qed

lemma word32_of_nat_nonzero:
  "0 < n \<Longrightarrow> n < 2 ^ 32 \<Longrightarrow> (of_nat n :: uint32) \<noteq> 0"
  by (simp add: word_of_nat_eq_0_iff dvd_def) (metis nat_dvd_not_less dvd_triv_left)

text \<open>
  C9, as far as it holds. The accept loop starts with \<open>sessionId\<close> at 0 and increments it
  before it uses it: an accept at \<open>sessionId = n\<close> creates its session under the id
  \<open>n + 1\<close>; so the first connection gets id 1, each later one the id before plus one
  (modulo \<open>2 ^ 32\<close>), and none of the first \<open>2 ^ 32 - 1\<close> connections gets id 0.
\<close>

theorem session_ids_count_up_from_one:
  assumes "accept_all cs 0 g w = (ids, sid', g', w')" and "k < length cs"
  shows "Gate_open conf True g0 w0 =
           Return (True, g0\<lparr>maxclient := conf_maxclient conf\<rparr>, spawn (T_start 0 AtSelect) w0) \<and>
         (\<forall>c rchoice wchoice n g2 w2. \<exists>s.
            fst (start_accept (Some c) rchoice wchoice n g2 w2) = n + 1 \<and>
            sessions (fst (snd (start_accept (Some c) rchoice wchoice n g2 w2))) (n + 1) = Some s \<and>
            sessionid s = n + 1) \<and>
         ids ! 0 = 1 \<and>
         ids ! k = of_nat (Suc k) \<and>
         (0 < k \<longrightarrow> ids ! k = ids ! (k - 1) + 1) \<and>
         (Suc k < 2 ^ 32 \<longrightarrow> ids ! k \<noteq> 0)"
proof -
  note a = accept_all_ids [OF assms(1)]
  have 1: "Gate_open conf True g0 w0 =
           Return (True, g0\<lparr>maxclient := conf_maxclient conf\<rparr>, spawn (T_start 0 AtSelect) w0)"
    by (simp add: Gate_open_def)
  have 2: "\<exists>s. fst (start_accept (Some c) rchoice wchoice n g2 w2) = n + 1 \<and>
            sessions (fst (snd (start_accept (Some c) rchoice wchoice n g2 w2))) (n + 1) = Some s \<and>
            sessionid s = n + 1" for c rchoice wchoice n g2 w2
  proof -
    obtain sid g1 w1 where e: "start_accept (Some c) rchoice wchoice n g2 w2 = (sid, g1, w1)"
      by (cases "start_accept (Some c) rchoice wchoice n g2 w2")
    from start_accept_result(1,4) [OF e] e show ?thesis by auto
  qed
  have "0 < length cs" using assms(2) by (cases cs) simp_all
  with a have "ids ! 0 = 0 + of_nat (Suc 0)" by blast
  then have 3: "ids ! 0 = 1" by simp
  have 4: "ids ! k = of_nat (Suc k)" using a assms(2) by simp
  have 5: "ids ! k = ids ! (k - 1) + 1" if "0 < k"
  proof -
    from that assms(2) have "k - 1 < length cs" by simp
    with a have "ids ! (k - 1) = of_nat (Suc (k - 1))" by simp
    with 4 that show ?thesis by simp
  qed
  have 6: "ids ! k \<noteq> 0" if "Suc k < 2 ^ 32"
    using 4 word32_of_nat_nonzero [of "Suc k"] that by simp
  from 1 2 3 4 5 6 show ?thesis by blast
qed

theorem session_ids_count_up_from_one_witness:
  "accept_all [(5, None, None), (6, None, None)] 0 (newGate 0) world0 =
     ([1, 2], snd (accept_all [(5, None, None), (6, None, None)] 0 (newGate 0) world0)) \<and>
   (1 :: nat) < length [(5 :: nat, None :: nat option, None :: nat option), (6, None, None)] \<and>
   Suc 1 < (2 :: nat) ^ 32 \<and>
   [1, 2 :: uint32] ! 1 = [1, 2] ! (1 - 1) + 1 \<and> [1, 2 :: uint32] ! 1 \<noteq> 0"
proof -
  obtain ids sid' g' w' where
    e: "accept_all [(5, None, None), (6, None, None)] 0 (newGate 0) world0 = (ids, sid', g', w')"
    by (metis prod_cases4)
  have k: "(1 :: nat) < length [(5 :: nat, None :: nat option, None :: nat option), (6, None, None)]"
    by simp
  note t = session_ids_count_up_from_one [OF e k]
  have l: "length ids = 2" using accept_all_ids [OF e] by simp
  from t have "ids ! 0 = 1" "ids ! 1 = 2" by simp_all
  with l have "ids = [1, 2]"
    by (cases ids; cases "tl ids") auto
  with e t show ?thesis by simp
qed

text \<open>
  C9 as it is worded also says that id 0 is never assigned. The counter is a \<open>uint32\<close>:
  the accept number \<open>2 ^ 32\<close> of a Gate gets id 0.
\<close>

theorem session_id_zero_after_wrap:
  "fst (accept_all (fresh_conns 4294967296) 0 (newGate 0) world0) ! 4294967295 = 0"
proof -
  let ?cs = "fresh_conns 4294967296"
  obtain ids r where e: "accept_all ?cs 0 (newGate 0) world0 = (ids, r)"
    by (cases "accept_all ?cs 0 (newGate 0) world0")
  obtain sid' g' w' where r: "r = (sid', g', w')" by (cases r)
  from accept_all_ids [of ?cs 0 "newGate 0" world0 ids sid' g' w'] e r
  have "ids ! 4294967295 = of_nat (Suc 4294967295)" by (simp add: fresh_conns_def)
  then show ?thesis using e by simp
qed

subsection \<open>The connection count\<close>

lemma thread_step_clinetnum:
  "thread_step t g w = Return (t', g', w') \<Longrightarrow> clinetnum g' = clinetnum g"
  by (cases "(t, g, w)" rule: thread_step.cases)
     (auto simp: closeSession_locked_def waiting_def
           split: outcome.splits prod.splits option.splits)

lemma step_clinetnum:
  assumes "step l (g, w) = Return (g', w')"
  shows "clinetnum g' = clinetnum g + (if accept_enabled l (g, w) then 1 else 0)"
proof (cases l)
  case (L_open conf ok)
  with assms show ?thesis by (auto simp: Gate_open_def split: if_splits)
next
  case L_close
  with assms show ?thesis by (auto simp: Gate_close_def split: if_splits)
next
  case (L_kick sid)
  with assms show ?thesis by (auto simp: kick_locked_def split: option.splits)
next
  case (L_write m)
  with assms show ?thesis by (auto split: option.splits)
next
  case (L_accept i accepted rchoice wchoice)
  show ?thesis
  proof (cases accepted)
    case None
    with assms L_accept show ?thesis
      by (auto simp: start_accept_def split: if_splits thread.splits start_pc.splits)
  next
    case (Some c)
    with assms L_accept show ?thesis
      by (auto split: if_splits thread.splits start_pc.splits prod.splits
               dest: start_accept_result(2))
  qed
next
  case (L_run i)
  with assms show ?thesis
    by (auto split: if_splits outcome.splits dest: thread_step_clinetnum)
next
  case (L_recv c evs)
  with assms show ?thesis by auto
qed

lemma accept_enabled_is_accept: "accept_enabled l c \<Longrightarrow> is_accept l"
  by (cases "(l, c)" rule: accept_enabled.cases) simp_all

lemma run_clinetnum:
  "run ls (g, w) = Return (g', w') \<Longrightarrow>
     clinetnum g' = clinetnum g + of_nat (accepts_done ls (g, w)) \<and>
     accepts_done ls (g, w) \<le> accept_count ls"
proof (induction ls arbitrary: g w)
  case Nil
  then show ?case by (simp add: accept_count_def)
next
  case (Cons l ls)
  from Cons.prems obtain g1 w1 where s: "step l (g, w) = Return (g1, w1)"
    and r: "run ls (g1, w1) = Return (g', w')"
    by (auto split: outcome.splits)
  note ih = Cons.IH [OF r]
  note st = step_clinetnum [OF s]
  show ?case
  proof (cases "accept_enabled l (g, w)")
    case True
    with accept_enabled_is_accept [OF True] ih st s show ?thesis
      by (simp add: accept_count_def)
  next
    case False
    with ih st s show ?thesis
      by (simp add: accept_count_def)
  qed
qed

lemma word32_add_of_nat:
  assumes "unat (x :: uint32) + k < 2 ^ 32"
  shows "x \<le> x + of_nat k" and "unat (x + of_nat k) = unat x + k"
proof -
  have k: "unat (of_nat k :: uint32) = k"
    using assms by (simp add: unat_of_nat take_bit_nat_eq_self)
  with assms show "x \<le> x + of_nat k" by (simp add: no_olen_add_nat)
  from k assms show "unat (x + of_nat k) = unat x + k"
    by (simp add: unat_add_lem [THEN iffD1])
qed

text \<open>
  C2, as far as it holds. Over any sequence of operations of a Gate, \<open>clinetnum\<close> at the
  end is \<open>clinetnum\<close> at the start plus the number of accepts performed, modulo
  \<open>2 ^ 32\<close>: every accept adds one, nothing else changes it, closing and kicking sessions
  included. So as long as the accepts do not carry it past \<open>2 ^ 32 - 1\<close> it does not
  decrease.
\<close>

theorem clinetnum_changes_only_by_accept:
  assumes "run ls (g, w) = Return (g', w')"
  shows "clinetnum g' = clinetnum g + of_nat (accepts_done ls (g, w)) \<and>
         accepts_done ls (g, w) \<le> accept_count ls \<and>
         (unat (clinetnum g) + accepts_done ls (g, w) < 2 ^ 32 \<longrightarrow>
            clinetnum g \<le> clinetnum g' \<and>
            unat (clinetnum g') = unat (clinetnum g) + accepts_done ls (g, w))"
  using run_clinetnum [OF assms] word32_add_of_nat [of "clinetnum g" "accepts_done ls (g, w)"]
  by simp

lemma kick_during_cleanup_run:
  "\<exists>g w. run kick_during_cleanup (newGate 0, world0) = Return (g, w) \<and>
         clinetnum g = 1 \<and> sessions g 1 = None \<and>
         close_calls (conns w 0) = 2 \<and>
         bufioReaderPool w = [0, 0] \<and> bufioWriterPool w = [1, 1] \<and>
         threads w = [T_start 1 AtSelect, T_serve session1 [0, 0] ServeReturned, T_done]"
  by (simp add: kick_during_cleanup_def gate_defs state_defs store_defs Let_def)

theorem clinetnum_changes_only_by_accept_witness:
  "case run kick_during_cleanup (newGate 0, world0) of
     Return (g, w) \<Rightarrow>
       accepts_done kick_during_cleanup (newGate 0, world0) = 1 \<and>
       unat (clinetnum (newGate 0)) + accepts_done kick_during_cleanup (newGate 0, world0) < 2 ^ 32 \<and>
       clinetnum (newGate 0) \<le> clinetnum g \<and> clinetnum g = 1 \<and> sessions g 1 = None
   | _ \<Rightarrow> False"
proof -
  from kick_during_cleanup_run obtain g w
    where r: "run kick_during_cleanup (newGate 0, world0) = Return (g, w)"
      and c: "clinetnum g = 1" "sessions g 1 = None"
    by blast
  have z: "clinetnum (newGate 0) = 0" by (simp add: newGate_def)
  have n: "accept_count kick_during_cleanup = 1"
    by (simp add: accept_count_def kick_during_cleanup_def)
  note t = clinetnum_changes_only_by_accept [OF r]
  let ?k = "accepts_done kick_during_cleanup (newGate 0, world0)"
  from t n have "?k = 0 \<or> ?k = 1" by auto
  moreover from t c z have "(1 :: uint32) = of_nat ?k" by simp
  ultimately have k: "?k = 1" by auto
  from t r c z k show ?thesis by simp
qed

lemma accept_round:
  assumes "threads w ! 0 = T_start sid AtSelect" and "0 < length (threads w)" and "\<not> quit g"
  shows "\<exists>g1 w1. run [L_run 0, L_accept 0 (Some c) None None] (g, w) = Return (g1, w1) \<and>
           clinetnum g1 = clinetnum g + 1 \<and>
           threads w1 ! 0 = T_start (sid + 1) AtSelect \<and> 0 < length (threads w1) \<and> \<not> quit g1"
proof -
  let ?w = "set_thread 0 (T_start sid AtAccept) w"
  have s1: "step (L_run 0) (g, w) = Return (g, ?w)"
    using assms by (simp add: start_select_def)
  have t: "threads ?w ! 0 = T_start sid AtAccept" "0 < length (threads ?w)"
    using assms by (simp_all add: set_thread_def)
  obtain sid1 g1 w1 where e: "start_accept (Some c) None None sid g ?w = (sid1, g1, w1)"
    by (cases "start_accept (Some c) None None sid g ?w")
  note f = start_accept_result [OF e]
  have s2: "step (L_accept 0 (Some c) None None) (g, ?w) =
              Return (g1, set_thread 0 (T_start sid1 AtSelect) w1)"
    using t e by simp
  from f(4) t have "0 < length (threads w1)" by auto
  then have "threads (set_thread 0 (T_start sid1 AtSelect) w1) ! 0 = T_start sid1 AtSelect"
       "0 < length (threads (set_thread 0 (T_start sid1 AtSelect) w1))"
    by (simp_all add: set_thread_def)
  with s1 s2 f(1,2,3) assms(3) show ?thesis by simp
qed

lemma accept_rounds_Suc:
  "accept_rounds m (Suc n) = [L_run 0, L_accept 0 (Some m) None None] @ accept_rounds (Suc m) n"
  by (simp add: accept_rounds_def upt_conv_Cons)

lemma accept_rounds_run:
  "threads w ! 0 = T_start sid AtSelect \<Longrightarrow> 0 < length (threads w) \<Longrightarrow> \<not> quit g \<Longrightarrow>
     \<exists>g1 w1. run (accept_rounds m n) (g, w) = Return (g1, w1) \<and>
       clinetnum g1 = clinetnum g + of_nat n \<and>
       threads w1 ! 0 = T_start (sid + of_nat n) AtSelect \<and> 0 < length (threads w1) \<and> \<not> quit g1"
proof (induction n arbitrary: m g w sid)
  case 0
  then show ?case by (simp add: accept_rounds_def)
next
  case (Suc n)
  from accept_round [OF Suc.prems, of m] obtain g1 w1
    where a: "run [L_run 0, L_accept 0 (Some m) None None] (g, w) = Return (g1, w1)"
      and b: "clinetnum g1 = clinetnum g + 1"
      and c: "threads w1 ! 0 = T_start (sid + 1) AtSelect" "0 < length (threads w1)" "\<not> quit g1"
    by blast
  from Suc.IH [OF c, of "Suc m"] obtain g2 w2
    where d: "run (accept_rounds (Suc m) n) (g1, w1) = Return (g2, w2)"
      and e: "clinetnum g2 = clinetnum g1 + of_nat n"
        "threads w2 ! 0 = T_start (sid + 1 + of_nat n) AtSelect" "0 < length (threads w2)"
        "\<not> quit g2"
    by blast
  have "run (accept_rounds m (Suc n)) (g, w) = Return (g2, w2)"
    unfolding accept_rounds_Suc run_append using a d by simp
  with b e show ?case by (simp add: add.assoc)
qed

lemma opened_accept_rounds:
  "\<exists>g w. run (L_open (NewConf ''127.0.0.1:8000'' 0) True # accept_rounds 0 n) (newGate 0, world0) =
            Return (g, w) \<and>
         clinetnum g = of_nat n \<and> threads w ! 0 = T_start (of_nat n) AtSelect \<and>
         0 < length (threads w) \<and> \<not> quit g"
proof -
  let ?g = "(newGate 0)\<lparr>maxclient := 0\<rparr>" and ?w = "spawn (T_start 0 AtSelect) world0"
  have o: "step (L_open (NewConf ''127.0.0.1:8000'' 0) True) (newGate 0, world0) = Return (?g, ?w)"
    by (simp add: Gate_open_def NewConf_def)
  have "threads ?w ! 0 = T_start 0 AtSelect" "0 < length (threads ?w)" "\<not> quit ?g"
    by (simp_all add: spawn_def world0_def newGate_def)
  from accept_rounds_run [OF this, of 0 n] o show ?thesis
    by (auto simp: newGate_def)
qed

text \<open>
  C2 as it is worded, "never decreases", fails where the \<open>uint32\<close> wraps: a Gate without
  a limit that has accepted \<open>2 ^ 32 - 1\<close> connections has \<open>clinetnum = 4294967295\<close>, and
  the next accept makes it 0.
\<close>

theorem clinetnum_wraps_to_zero:
  "map_outcome (clinetnum \<circ> fst)
     (run (L_open (NewConf ''127.0.0.1:8000'' 0) True # accept_rounds 0 4294967295)
        (newGate 0, world0)) = Return 4294967295 \<and>
   map_outcome (clinetnum \<circ> fst)
     (run ((L_open (NewConf ''127.0.0.1:8000'' 0) True # accept_rounds 0 4294967295) @
           [L_run 0, L_accept 0 (Some 4294967295) None None])
        (newGate 0, world0)) = Return 0"
proof -
  from opened_accept_rounds [of 4294967295] obtain g w
    where r: "run (L_open (NewConf ''127.0.0.1:8000'' 0) True # accept_rounds 0 4294967295)
                (newGate 0, world0) = Return (g, w)"
      and c: "clinetnum g = 4294967295"
      and t: "threads w ! 0 = T_start 4294967295 AtSelect" "0 < length (threads w)" "\<not> quit g"
    by auto
  from accept_round [OF t, of 4294967295] obtain g1 w1
    where a: "run [L_run 0, L_accept 0 (Some 4294967295) None None] (g, w) = Return (g1, w1)"
      and b: "clinetnum g1 = clinetnum g + 1"
    by blast
  have "clinetnum g1 = 0" using b c by simp
  with r c a show ?thesis
    unfolding run_append by simp
qed

subsection \<open>Closing a session twice\<close>

text \<open>
  C4 does not hold of the program. In \<open>kick_during_cleanup\<close>, \<open>kick\<close> removes session 1
  from the map after the read of the read loop has failed and before \<open>closeSession\<close>
  deletes the entry; \<open>closeSession\<close> then closes the session without asking whether it
  removed anything, and \<open>kick\<close> closes it too. At the end \<open>Session.Close\<close> has run twice
  on session 1: \<open>Close\<close> was called twice on its connection, and its buffered reader and
  its buffered writer are in their pools twice.
\<close>

theorem kick_during_cleanup_closes_twice:
  "case run kick_during_cleanup (newGate 0, world0) of
     Return (g, w) \<Rightarrow>
       sessions g 1 = None \<and> close_calls (conns w 0) = 2 \<and>
       bufioReaderPool w = [0, 0] \<and> bufioWriterPool w = [1, 1] \<and>
       threads w = [T_start 1 AtSelect, T_serve session1 [0, 0] ServeReturned, T_done]
   | _ \<Rightarrow> False"
proof -
  from kick_during_cleanup_run obtain g w
    where "run kick_during_cleanup (newGate 0, world0) = Return (g, w)"
      "sessions g 1 = None" "close_calls (conns w 0) = 2"
      "bufioReaderPool w = [0, 0]" "bufioWriterPool w = [1, 1]"
      "threads w = [T_start 1 AtSelect, T_serve session1 [0, 0] ServeReturned, T_done]"
    by blast
  then show ?thesis by simp
qed

text \<open>
  The same happens without any failure of the network, whenever \<open>kick\<close> meets a session
  whose read loop waits for data: the close of \<open>kick\<close> makes the waiting read fail, and
  the read loop closes the session again.
\<close>

lemma kick_idle_session_closes_twice:
  "\<exists>g w. run kick_idle_session (newGate 0, world0) = Return (g, w) \<and>
         sessions g 1 = None \<and> close_calls (conns w 0) = 2 \<and>
         bufioReaderPool w = [0, 0] \<and> bufioWriterPool w = [1, 1] \<and>
         threads w = [T_start 1 AtSelect, T_serve session1 [0, 0] ServeReturned, T_done]"
  by (simp add: kick_idle_session_def gate_defs state_defs store_defs errClosed_def Let_def)

text \<open>
  The accept loop breaks the same invariant on its own: a connection accepted over the
  limit is entered in the map after it has been closed.
\<close>

lemma accept_over_limit_maps_closed_socket:
  "\<exists>g w s. run accept_over_limit (newGate 0, world0) = Return (g, w) \<and>
           sessions g 2 = Some s \<and> conn s = 1 \<and> closed (conns w 1)"
  by (simp add: accept_over_limit_def gate_defs state_defs store_defs Let_def)

end
